theory Spec2Isabelle
  imports Complex_Main "HOL-Library.List_Lexorder" "HOL-Library.Char_ord" "HOL-Library.Multiset"
begin

section \<open>JavaScript values used by the host\<close>

text \<open>
  The host class \<open>Hexells\<close> (src/hexells.js) keeps an index into the shuffled model list
  and the selected model id. Both are JavaScript numbers that may also be \<open>undefined\<close>
  (a read past the end of an array) or \<open>NaN\<close> (arithmetic on \<open>undefined\<close>, or a
  remainder by zero). The three cases are kept apart.
\<close>

datatype jsval = Num int | NaN | Undefined

text \<open>\<open>a + b\<close> on numbers; \<open>undefined + n\<close> and \<open>NaN + n\<close> are \<open>NaN\<close>.\<close>

fun js_add :: "jsval \<Rightarrow> jsval \<Rightarrow> jsval" where
  "js_add (Num a) (Num b) = Num (a + b)"
| "js_add _ _ = NaN"

text \<open>The remainder of \<open>%\<close> takes the sign of the dividend (truncated division).\<close>

definition trunc_rem :: "int \<Rightarrow> int \<Rightarrow> int" where
  "trunc_rem a b = sgn a * (\<bar>a\<bar> mod \<bar>b\<bar>)"

fun js_rem :: "jsval \<Rightarrow> jsval \<Rightarrow> jsval" where
  "js_rem (Num a) (Num b) = (if b = 0 then NaN else Num (trunc_rem a b))"
| "js_rem _ _ = NaN"

text \<open>\<open>xs[i]\<close>: an index outside the array, \<open>NaN\<close> or \<open>undefined\<close> reads \<open>undefined\<close>.\<close>

fun js_index :: "int list \<Rightarrow> jsval \<Rightarrow> jsval" where
  "js_index xs (Num i) = (if 0 \<le> i \<and> i < int (length xs) then Num (xs ! nat i) else Undefined)"
| "js_index xs _ = Undefined"

text \<open>\<open>a || b\<close> on numbers: the right operand when the left one is \<open>0\<close>.\<close>

definition js_or :: "'a::zero \<Rightarrow> 'a \<Rightarrow> 'a" where
  "js_or a b = (if a = 0 then b else a)"

text \<open>\<open>Math.round\<close>: the nearest integer, a half rounded up.\<close>

definition Math_round :: "real \<Rightarrow> int" where
  "Math_round x = \<lfloor>x + 1 / 2\<rfloor>"

text \<open>The decimal rendering of an array index, as \<open>String\<close> gives it.\<close>

fun digits :: "nat \<Rightarrow> string" where
  "digits n = (if n < 10 then [char_of (48 + n)]
               else digits (n div 10) @ [char_of (48 + n mod 10)])"

declare digits.simps [simp del]

section \<open>Data of the host\<close>

text \<open>\<open>powerOptions\<close>, lines 9 to 13.\<close>

definition powerOptions :: "string list" where
  "powerOptions = [''high-performance'', ''low-power'', ''default'']"

text \<open>
  \<open>HexellsOptions\<close>: every property may be absent. The options that share a name with a
  field of the instance carry the prefix \<open>opt_\<close>.
\<close>

record HexellsOptions =
  powerPreference :: "string option"
  opt_brushRadius :: "real option"
  opt_stepPerFrame :: "int option"
  opt_timePerModel :: "real option"
  opt_responsive :: "bool option"
  opt_fps :: "real option"

text \<open>
  The canvas element, as far as the host reads and writes it: the layout box
  (\<open>clientWidth\<close>, \<open>clientHeight\<close>, in CSS pixels, set by the page's style sheet and
  changed only by the browser), the backing store (\<open>width\<close>, \<open>height\<close>), whether it has
  a parent element, and its class list.
\<close>

record canvas =
  clientWidth :: int
  clientHeight :: int
  width :: int
  height :: int
  parentElement :: bool
  classList :: "string list"

text \<open>The gesture object of \<open>startGestue\<close>, fields in the order of the source.\<close>

record gesture =
  d :: real
  l :: real
  prevPos :: "real \<times> real"
  r :: real
  time :: int
  u :: real

text \<open>
  \<open>models.json\<close> is not among the sources; the host reads only its \<open>model_names\<close>, so
  the asset is a parameter with that one field.
\<close>

record models =
  model_names :: "string list"

text \<open>
  The engine \<open>CellularAutomata\<close> (ca.js) is not among the sources either. The host's
  method calls on \<open>this.ca\<close> are logged in the order they are made, with their arguments.
\<close>

datatype ca_call =
    Paint int int int jsval
  | ClearCircle real real real "int \<times> int"
  | Disturb
  | Step
  | Draw "int \<times> int" string
  | Destroy

text \<open>The event types for which \<open>setup\<close> registers a listener.\<close>

datatype listener =
  mousedown | mousemove | mouseup | touchstart | touchmove | touchend | keypress

text \<open>
  The instance. Besides the fields of the class it holds what the browser keeps for it:
  the registered listeners, the number of running interval timers and of pending
  timeouts, the queue of pending animation-frame requests with the next handle, and the
  module variable \<open>hexellsAnimation\<close>. \<open>models\<close> is the asset captured by the ready
  callback. Before \<open>setup\<close> runs \<open>shuffledModelIds\<close> is \<open>undefined\<close>; the record holds
  \<open>[]\<close> there. \<open>stepPerFrame\<close> is a count, an integer. The delays \<open>timePerModel\<close> and
  \<open>fps\<close> only say when a timer fires; timers fire as events, and \<open>fps\<close> is left out.
\<close>

record hexells =
  canvas :: canvas
  options :: HexellsOptions
  brushRadius :: real
  stepPerFrame :: int
  timePerModel :: real
  responsive :: bool
  gui :: bool
  models :: models
  shuffledModelIds :: "int list"
  curModelIndex :: jsval
  modelId :: jsval
  guesture :: "gesture option"
  gesture :: "gesture option"
  ca_calls :: "ca_call list"
  listeners :: "listener list"
  intervals :: nat
  timeouts :: nat
  raf_queue :: "nat list"
  raf_next :: nat
  hexellsAnimation :: "nat option"

datatype error =
    InvalidPowerPreference string
  | WebGLNotSupported
  | WebGLInitError
  | TypeError

text \<open>What the constructor creates, in order.\<close>

datatype effect = GetContext string | NewGUI | NewCellularAutomata "int \<times> int"

text \<open>What the browser answers at construction.\<close>

record browser =
  getContext_ok :: bool
  has_WebGLRenderingContext :: bool

section \<open>The constructor\<close>

text \<open>
  Lines 37 to 79. \<open>options.powerPreference || "default"\<close> takes the default for an absent
  and for an empty string (the only falsy string). The result pairs the effects made so
  far with the thrown error or the new instance.
\<close>

definition constructor :: "browser \<Rightarrow> models \<Rightarrow> canvas \<Rightarrow> HexellsOptions
    \<Rightarrow> effect list \<times> (error + hexells)" where
  "constructor br ms cv opts =
    (let pp = (case powerPreference opts of
                 None \<Rightarrow> ''default''
               | Some p \<Rightarrow> if p = [] then ''default'' else p)
     in if pp \<notin> set powerOptions then ([], Inl (InvalidPowerPreference pp))
        else if \<not> getContext_ok br then
          ([GetContext pp],
           Inl (if \<not> has_WebGLRenderingContext br then WebGLNotSupported else WebGLInitError))
        else
          (let rsp = (case opt_responsive opts of None \<Rightarrow> False | Some b \<Rightarrow> b)
           in ([GetContext pp] @ (if rsp then [NewGUI] else []) @ [NewCellularAutomata (160, 160)],
               Inr \<lparr> canvas = cv,
                     options = opts,
                     brushRadius = (case opt_brushRadius opts of None \<Rightarrow> 16 | Some b \<Rightarrow> b),
                     stepPerFrame = (case opt_stepPerFrame opts of None \<Rightarrow> 1 | Some n \<Rightarrow> n),
                     timePerModel = (case opt_timePerModel opts of None \<Rightarrow> 20 * 1000 | Some t \<Rightarrow> t),
                     responsive = rsp,
                     gui = rsp,
                     models = ms,
                     shuffledModelIds = [],
                     curModelIndex = Undefined,
                     modelId = Undefined,
                     guesture = None,
                     gesture = None,
                     ca_calls = [],
                     listeners = [],
                     intervals = 0,
                     timeouts = 0,
                     raf_queue = [],
                     raf_next = 0,
                     hexellsAnimation = None \<rparr>)))"

section \<open>Model selection\<close>

text \<open>\<open>setModel\<close>, lines 220 to 224.\<close>

definition setModel :: "jsval \<Rightarrow> hexells \<Rightarrow> hexells" where
  "setModel id' s = s\<lparr>modelId := id', ca_calls := ca_calls s @ [Paint 0 0 (- 1) id', Disturb]\<rparr>"

text \<open>\<open>switchModel\<close>, lines 209 to 214.\<close>

definition switchModel :: "int \<Rightarrow> hexells \<Rightarrow> hexells" where
  "switchModel swipe s =
    (let numModels = Num (int (length (shuffledModelIds s)));
         s1 = s\<lparr>curModelIndex :=
                 js_rem (js_add (js_add (curModelIndex s) numModels) (Num swipe)) numModels\<rparr>;
         id' = js_index (shuffledModelIds s1) (curModelIndex s1)
     in setModel id' s1)"

text \<open>
  The shuffle of \<open>setup\<close>, lines 89 to 92: each index is paired with a random number and
  the pairs are sorted with the default comparison of \<open>Array.prototype.sort\<close>, which
  compares the pairs as strings (\<open>"0.4711,2"\<close>). The random numbers are given by their
  string renderings, \<open>rnd i\<close> for the draw of index \<open>i\<close>.
\<close>

definition pair_string :: "string \<times> nat \<Rightarrow> string" where
  "pair_string p = fst p @ '','' @ digits (snd p)"

definition shuffle :: "(nat \<Rightarrow> string) \<Rightarrow> string list \<Rightarrow> int list" where
  "shuffle rnd names =
     map (\<lambda>p. int (snd p)) (sort_key pair_string (map (\<lambda>i. (rnd i, i)) [0..<length names]))"

section \<open>The view and the gestures\<close>

text \<open>\<open>getViewSize\<close>, lines 230 to 235.\<close>

definition getViewSize :: "hexells \<Rightarrow> int \<times> int" where
  "getViewSize s =
     (js_or (clientWidth (canvas s)) (width (canvas s)),
      js_or (clientHeight (canvas s)) (height (canvas s)))"

text \<open>\<open>startGestue\<close>, lines 156 to 165; \<open>now\<close> is \<open>Date.now()\<close>.\<close>

definition startGestue :: "int \<Rightarrow> real \<times> real \<Rightarrow> hexells \<Rightarrow> hexells" where
  "startGestue now pos s =
     s\<lparr>gesture := Some \<lparr> d = 0, l = 0, prevPos = pos, r = 0, time = now, u = 0 \<rparr>\<rparr>"

text \<open>The update of the gesture object in \<open>touch\<close>, lines 175 to 180.\<close>

definition drag :: "real \<times> real \<Rightarrow> gesture \<Rightarrow> gesture" where
  "drag pos g =
     (let x = fst pos; y = snd pos; x0 = fst (prevPos g); y0 = snd (prevPos g)
      in g\<lparr> l := l g + max (x0 - x) 0,
            r := r g + max (x - x0) 0,
            u := u g + max (y0 - y) 0,
            d := d g + max (y - y0) 0,
            prevPos := pos \<rparr>)"

text \<open>\<open>touch\<close>, lines 171 to 185.\<close>

definition touch :: "real \<times> real \<Rightarrow> hexells \<Rightarrow> hexells" where
  "touch pos s =
     (let s1 = (case gesture s of None \<Rightarrow> s | Some g \<Rightarrow> s\<lparr>gesture := Some (drag pos g)\<rparr>);
          viewSize = getViewSize s1
      in s1\<lparr>ca_calls := ca_calls s1 @ [ClearCircle (fst pos) (snd pos) (brushRadius s1) viewSize]\<rparr>)"

text \<open>\<open>endGestue\<close>, lines 190 to 203.\<close>

definition endGestue :: "int \<Rightarrow> hexells \<Rightarrow> hexells" where
  "endGestue now s =
     (case gesture s of
        None \<Rightarrow> s
      | Some g \<Rightarrow>
          (let s1 = (if now - time g < 1000 then
                       (if l g > 200 \<and> max (max (r g) (u g)) (d g) < l g * 0.25
                          then switchModel (- 1) s
                        else if r g > 200 \<and> max (max (l g) (u g)) (d g) < r g * 0.25
                          then switchModel 1 s
                        else s)
                     else s)
           in s1\<lparr>gesture := None\<rparr>))"

section \<open>Frames\<close>

text \<open>
  \<open>requestAnimationFrame\<close> queues a call of \<open>render\<close> and returns its handle, which the
  host stores in \<open>hexellsAnimation\<close>; \<open>cancelAnimationFrame\<close> removes a pending request.
\<close>

definition requestAnimationFrame :: "hexells \<Rightarrow> hexells" where
  "requestAnimationFrame s =
     s\<lparr>raf_queue := raf_queue s @ [raf_next s],
       hexellsAnimation := Some (raf_next s),
       raf_next := Suc (raf_next s)\<rparr>"

definition cancelAnimationFrame :: "nat option \<Rightarrow> hexells \<Rightarrow> hexells" where
  "cancelAnimationFrame h s =
     (case h of None \<Rightarrow> s | Some n \<Rightarrow> s\<lparr>raf_queue := removeAll n (raf_queue s)\<rparr>)"

text \<open>The loop of \<open>render\<close>, lines 241 to 243.\<close>

function render_steps :: "int \<Rightarrow> hexells \<Rightarrow> hexells" where
  "render_steps i s =
     (if i < stepPerFrame s
      then render_steps (i + 1) (s\<lparr>ca_calls := ca_calls s @ [Step]\<rparr>)
      else s)"
  by pat_completeness auto
termination
  by (relation "measure (\<lambda>(i, s). nat (stepPerFrame s - i))") auto

declare render_steps.simps [simp del]

text \<open>
  \<open>render\<close>, lines 240 to 257; the argument is \<open>window.devicePixelRatio\<close>. The layout
  box of the canvas is the one of the record for both calls of \<open>getViewSize\<close>. Binding
  the default framebuffer is a call on the WebGL context and leaves the instance as it
  is. The frame ends by setting the timeout that will request the next frame.
\<close>

definition render :: "real \<Rightarrow> hexells \<Rightarrow> hexells" where
  "render devicePixelRatio s =
     (let s1 = render_steps 0 s;
          dpr = js_or devicePixelRatio 1;
          w = fst (getViewSize s1);
          h = snd (getViewSize s1);
          s2 = s1\<lparr>canvas := (canvas s1)\<lparr>width := Math_round (real_of_int w * dpr),
                                         height := Math_round (real_of_int h * dpr)\<rparr>\<rparr>;
          s3 = s2\<lparr>ca_calls := ca_calls s2 @ [Draw (getViewSize s2) ''color'']\<rparr>
      in s3\<lparr>timeouts := Suc (timeouts s3)\<rparr>)"

text \<open>
  \<open>destroy\<close>, lines 262 to 273. The assignments \<open>ca = null\<close> and \<open>canvas = null\<close> change
  local variables only. Reading \<open>parentElement\<close> of a canvas without a parent throws
  after the engine has been destroyed, so the result carries the state and the error.
\<close>

definition destroy :: "hexells \<Rightarrow> hexells \<times> error option" where
  "destroy s =
     (let s1 = (cancelAnimationFrame (hexellsAnimation s) s)\<lparr>hexellsAnimation := None\<rparr>;
          s2 = s1\<lparr>ca_calls := ca_calls s1 @ [Destroy]\<rparr>
      in if parentElement (canvas s2)
         then (s2\<lparr>canvas := (canvas s2)\<lparr>parentElement := False\<rparr>\<rparr>, None)
         else (s2, Some TypeError))"

section \<open>Setup and the events\<close>

text \<open>
  \<open>setup\<close>, lines 85 to 150, run by the ready callback with the asset of the
  constructor (\<open>setup\<close> is a keyword of the theory language, hence the suffix).
  \<open>this.guesture\<close> is the spelling of the source.
\<close>

definition setup_hx :: "(nat \<Rightarrow> string) \<Rightarrow> hexells \<Rightarrow> hexells" where
  "setup_hx rnd s =
     (let cv = canvas s;
          s1 = s\<lparr>canvas := cv\<lparr>classList :=
                    (if ''hexells'' \<in> set (classList cv) then classList cv
                     else classList cv @ [''hexells''])\<rparr>\<rparr>;
          s2 = s1\<lparr>shuffledModelIds := shuffle rnd (model_names (models s1))\<rparr>;
          s3 = s2\<lparr>curModelIndex := js_index (shuffledModelIds s2) (Num 0)\<rparr>;
          s4 = s3\<lparr>modelId := js_index (shuffledModelIds s3) (curModelIndex s3)\<rparr>;
          s5 = s4\<lparr>ca_calls := ca_calls s4 @ [Paint 0 0 (- 1) (modelId s4)]\<rparr>;
          s6 = s5\<lparr>guesture := None\<rparr>;
          s7 = (if responsive s6
                then s6\<lparr>listeners := listeners s6 @
                        [mousedown, mousemove, mouseup, touchstart, touchmove, touchend, keypress]\<rparr>
                else s6\<lparr>intervals := Suc (intervals s6)\<rparr>)
      in requestAnimationFrame s7)"

text \<open>
  What can happen to an instance: the engine fires the ready callback (with the random
  draws of the shuffle), the browser delivers an input event, a timer or an animation
  frame, the layout box changes, or the page calls \<open>destroy\<close>, the one method that
  nothing inside the class calls. Mouse events carry
  \<open>[offsetX, offsetY]\<close> and \<open>buttons\<close>, touch events the positions of \<open>event.touches\<close>
  relative to the canvas, and events that read the clock carry \<open>Date.now()\<close>.
\<close>

datatype event =
    Ready "nat \<Rightarrow> string"
  | MouseDown "real \<times> real" int int
  | MouseMove "real \<times> real" int
  | MouseUp int
  | TouchStart "(real \<times> real) list" int
  | TouchMove "(real \<times> real) list"
  | TouchEnd int
  | KeyPress string
  | IntervalTick
  | TimeoutFire
  | AnimationFrame real
  | Layout int int
  | CallDestroy

text \<open>A listener runs once for each time it has been registered.\<close>

definition on :: "listener \<Rightarrow> (hexells \<Rightarrow> hexells) \<Rightarrow> hexells \<Rightarrow> hexells" where
  "on ty handler s = (handler ^^ count_list (listeners s) ty) s"

fun dispatch :: "event \<Rightarrow> hexells \<Rightarrow> hexells" where
  "dispatch (Ready rnd) s = setup_hx rnd s"
| "dispatch (MouseDown pos buttons now) s =
     on mousedown (\<lambda>s. if buttons = 1 then touch pos (startGestue now pos s) else s) s"
| "dispatch (MouseMove pos buttons) s =
     on mousemove (\<lambda>s. if buttons = 1 then touch pos s else s) s"
| "dispatch (MouseUp now) s = on mouseup (endGestue now) s"
| "dispatch (TouchStart touches now) s =
     on touchstart
       (fold (\<lambda>pos s. touch pos (if length touches = 1 then startGestue now pos s
                                  else s\<lparr>gesture := None\<rparr>)) touches) s"
| "dispatch (TouchMove touches) s = on touchmove (fold touch touches) s"
| "dispatch (TouchEnd now) s = on touchend (endGestue now) s"
| "dispatch (KeyPress key) s =
     on keypress
       (\<lambda>s. let s1 = (if key = ''a'' then switchModel 1 s else s)
            in if key = ''z'' then switchModel (- 1) s1 else s1) s"
| "dispatch IntervalTick s = (if 0 < intervals s then switchModel 1 s else s)"
| "dispatch TimeoutFire s =
     (if 0 < timeouts s then requestAnimationFrame (s\<lparr>timeouts := timeouts s - 1\<rparr>) else s)"
| "dispatch (AnimationFrame dpr) s =
     (case raf_queue s of [] \<Rightarrow> s | h # q \<Rightarrow> render dpr (s\<lparr>raf_queue := q\<rparr>))"
| "dispatch (Layout cw ch) s = s\<lparr>canvas := (canvas s)\<lparr>clientWidth := cw, clientHeight := ch\<rparr>\<rparr>"
| "dispatch CallDestroy s = fst (destroy s)"

text \<open>A history of events, oldest first.\<close>

definition run :: "event list \<Rightarrow> hexells \<Rightarrow> hexells" where
  "run evs s = fold dispatch evs s"

fun is_Ready :: "event \<Rightarrow> bool" where
  "is_Ready (Ready rnd) = True"
| "is_Ready _ = False"

section \<open>Reading the log of engine calls\<close>

text \<open>
  The model ids of the \<open>paint\<close> calls of a log, in order.
\<close>

fun paint_ids :: "ca_call list \<Rightarrow> jsval list" where
  "paint_ids [] = []"
| "paint_ids (Paint x y rad mid # cs) = mid # paint_ids cs"
| "paint_ids (c # cs) = paint_ids cs"

text \<open>
  A model id is valid for \<open>N\<close> loaded models when it is a number in \<open>[0, N)\<close>.
\<close>

fun valid_id :: "nat \<Rightarrow> jsval \<Rightarrow> bool" where
  "valid_id N (Num m) = (0 \<le> m \<and> m < int N)"
| "valid_id N v = False"

text \<open>
  The engine operations \<open>step\<close>, \<open>draw\<close>, \<open>paint\<close>, \<open>clearCircle\<close> and
  \<open>disturb\<close>, as opposed to the teardown.
\<close>

fun engine_op :: "ca_call \<Rightarrow> bool" where
  "engine_op Destroy = False"
| "engine_op c = True"

section \<open>Invariants of the event loop\<close>

text \<open>
  No listener is registered, no timer runs and no frame is requested: the state in
  which the constructor leaves the browser.
\<close>

definition idle :: "hexells \<Rightarrow> bool" where
  "idle s \<longleftrightarrow> listeners s = [] \<and> intervals s = 0 \<and> timeouts s = 0 \<and> raf_queue s = []"

text \<open>
  The state before \<open>setup\<close> has run: idle, and no engine operation has been logged.
\<close>

definition quiet :: "models \<Rightarrow> hexells \<Rightarrow> bool" where
  "quiet ms s \<longleftrightarrow> models s = ms \<and> idle s \<and> filter engine_op (ca_calls s) = []"

text \<open>
  The state after \<open>setup\<close> has run: the shuffled list is a permutation of the model
  indices, the current index is within it, and every logged \<open>paint\<close> carried a valid
  model id.
\<close>

definition live :: "models \<Rightarrow> hexells \<Rightarrow> bool" where
  "live ms s \<longleftrightarrow>
     models s = ms
     \<and> mset (shuffledModelIds s) = mset (map int [0..<length (model_names ms)])
     \<and> valid_id (length (model_names ms)) (curModelIndex s)
     \<and> modelId s = js_index (shuffledModelIds s) (curModelIndex s)
     \<and> list_all (valid_id (length (model_names ms))) (paint_ids (ca_calls s))"

text \<open>
  The log of \<open>t\<close> extends the log of \<open>s\<close>.
\<close>

definition grows :: "hexells \<Rightarrow> hexells \<Rightarrow> bool" where
  "grows s t \<longleftrightarrow> (\<exists>ys. ca_calls t = ca_calls s @ ys)"

section \<open>The engine, from its specification\<close>

text \<open>
  Modelled from the spec: the engine \<open>CellularAutomata\<close> of ca.js, which is missing from
  the sources. Section 5 of the specification lists what the engine owns: its two state
  buffers, its model parameter storage and its intermediate pass resources.
\<close>

datatype resource = StateBuffer nat | ModelParameters | PassResources

text \<open>
  Modelled from the spec: the errors of section 7 that an operation of the missing
  engine returns for a bad model id, an unsupported render mode and a call after
  teardown. No device is modelled, so \<open>DeviceLostError\<close> does not occur.
\<close>

datatype engine_error = InvalidModelIdError | UnsupportedRenderModeError | EngineDestroyedError

text \<open>
  Modelled from the spec: the state of the missing engine, as far as sections 3 to 5
  fix it: the grid dimensions given at construction, the number of loaded models, the
  supported render modes, whether \<open>destroy\<close> has been called, and the resources
  owned. The cells of the field are not modelled.
\<close>

record engine =
  gridDimensions :: "int \<times> int"
  modelCount :: nat
  renderModes :: "string list"
  destroyed :: bool
  owned :: "resource list"

text \<open>
  Modelled from the spec: construction of the missing engine (section 6), with the
  render mode \<open>"color"\<close> that section 4.5 requires at least.
\<close>

definition ca_new :: "int \<times> int \<Rightarrow> models \<Rightarrow> engine" where
  "ca_new dims ms =
     \<lparr> gridDimensions = dims,
       modelCount = length (model_names ms),
       renderModes = [''color''],
       destroyed = False,
       owned = [StateBuffer 0, StateBuffer 1, ModelParameters, PassResources] \<rparr>"

text \<open>
  Modelled from the spec: one operation of the missing engine. After \<open>destroy\<close> every
  call fails with \<open>EngineDestroyedError\<close> (section 5); \<open>paint\<close> with a model id outside
  \<open>[0, count)\<close> fails with \<open>InvalidModelIdError\<close> (section 4.4); \<open>draw\<close> with an
  unsupported mode fails with \<open>UnsupportedRenderModeError\<close> (section 4.5); \<open>destroy\<close>
  releases everything the engine owns (section 5). No operation takes grid dimensions
  (section 3: they are fixed at construction).
\<close>

definition ca_apply :: "ca_call \<Rightarrow> engine \<Rightarrow> engine_error + engine" where
  "ca_apply c e =
     (if destroyed e then Inl EngineDestroyedError
      else case c of
          Paint x y rad mid \<Rightarrow>
            (if valid_id (modelCount e) mid then Inr e else Inl InvalidModelIdError)
        | Draw viewSize mode \<Rightarrow>
            (if mode \<in> set (renderModes e) then Inr e else Inl UnsupportedRenderModeError)
        | Destroy \<Rightarrow> Inr (e\<lparr>destroyed := True, owned := []\<rparr>)
        | _ \<Rightarrow> Inr e)"

text \<open>
  Modelled from the spec: a failed call leaves the missing engine as it was
  (section 7).
\<close>

definition ca_follow :: "ca_call \<Rightarrow> engine \<Rightarrow> engine" where
  "ca_follow c e = (case ca_apply c e of Inl err \<Rightarrow> e | Inr e' \<Rightarrow> e')"

text \<open>
  Modelled from the spec: the missing engine after the calls of a log, oldest first.
\<close>

definition ca_after :: "ca_call list \<Rightarrow> engine \<Rightarrow> engine" where
  "ca_after cs e = fold ca_follow cs e"

section \<open>Concrete instances\<close>

text \<open>
  An empty options object, a canvas of 100 by 50 CSS pixels with the default backing
  store, a browser with WebGL, and an asset of three models.
\<close>

definition opts_demo :: HexellsOptions where
  "opts_demo = \<lparr> powerPreference = None, opt_brushRadius = None, opt_stepPerFrame = None,
                  opt_timePerModel = None, opt_responsive = None, opt_fps = None \<rparr>"

definition canvas_demo :: canvas where
  "canvas_demo = \<lparr> clientWidth = 100, clientHeight = 50, width = 300, height = 150,
                    parentElement = True, classList = [] \<rparr>"

definition browser_demo :: browser where
  "browser_demo = \<lparr> getContext_ok = True, has_WebGLRenderingContext = True \<rparr>"

definition models_demo :: models where
  "models_demo = \<lparr> model_names = [''a'', ''b'', ''c''] \<rparr>"

text \<open>
  The instance the constructor returns for them.
\<close>

definition s0_demo :: hexells where
  "s0_demo = \<lparr> canvas = canvas_demo, options = opts_demo,
               brushRadius = 16, stepPerFrame = 1, timePerModel = 20000, responsive = False,
               gui = False, models = models_demo,
               shuffledModelIds = [], curModelIndex = Undefined, modelId = Undefined,
               guesture = None, gesture = None, ca_calls = [], listeners = [], intervals = 0,
               timeouts = 0, raf_queue = [], raf_next = 0, hexellsAnimation = None \<rparr>"

text \<open>
  An instance after \<open>setup\<close>, with the shuffled list \<open>[1, 2, 0]\<close> and two steps per
  frame.
\<close>

definition s_demo :: hexells where
  "s_demo = \<lparr> canvas = \<lparr> clientWidth = 100, clientHeight = 50, width = 300, height = 150,
                         parentElement = True, classList = [] \<rparr>,
              options = \<lparr> powerPreference = None, opt_brushRadius = None, opt_stepPerFrame = None,
                          opt_timePerModel = None, opt_responsive = None, opt_fps = None \<rparr>,
              brushRadius = 16, stepPerFrame = 2, timePerModel = 20000, responsive = False,
              gui = False, models = \<lparr> model_names = [''a'', ''b'', ''c''] \<rparr>,
              shuffledModelIds = [1, 2, 0], curModelIndex = Num 1, modelId = Num 2,
              guesture = None, gesture = None, ca_calls = [], listeners = [], intervals = 1,
              timeouts = 0, raf_queue = [0], raf_next = 1, hexellsAnimation = Some 0 \<rparr>"

text \<open>
  Random draws that shuffle three models to \<open>[1, 2, 0]\<close>.
\<close>

definition rnd_demo :: "nat \<Rightarrow> string" where
  "rnd_demo i = (if i = 0 then ''0.9'' else if i = 1 then ''0.1'' else ''0.5'')"

text \<open>
  A history with the ready callback, and one without it.
\<close>

definition evs_demo :: "event list" where
  "evs_demo = [Ready rnd_demo, IntervalTick, AnimationFrame 2, TimeoutFire, AnimationFrame 2,
               IntervalTick, CallDestroy]"

definition evs_unready :: "event list" where
  "evs_unready = [MouseDown (1, 1) 1 0, KeyPress ''a'', IntervalTick, TimeoutFire,
                  AnimationFrame 2, Layout 10 10, TouchStart [(1, 1)] 5, MouseUp 7, CallDestroy]"

text \<open>
  A gesture that started at \<open>(10, 10)\<close>.
\<close>

definition g_demo :: gesture where
  "g_demo = \<lparr> d = 0, l = 0, prevPos = (10, 10), r = 0, time = 0, u = 0 \<rparr>"

section \<open>Switching models\<close>

text \<open>
  On a non-negative dividend the remainder of \<open>%\<close> is the mathematical one.
\<close>

lemma trunc_rem_nonneg: "0 \<le> a \<Longrightarrow> 0 < b \<Longrightarrow> trunc_rem a b = a mod b"
  by (cases "a = 0") (simp_all add: trunc_rem_def)

lemma switchModel_shuffledModelIds [simp]:
  "shuffledModelIds (switchModel swipe s) = shuffledModelIds s"
  by (simp add: switchModel_def setModel_def Let_def)

lemma switchModel_modelId:
  "modelId (switchModel swipe s) =
     js_index (shuffledModelIds s) (curModelIndex (switchModel swipe s))"
  by (simp add: switchModel_def setModel_def Let_def)

lemma switchModel_curModelIndex:
  "curModelIndex (switchModel swipe s) =
     js_rem (js_add (js_add (curModelIndex s) (Num (int (length (shuffledModelIds s))))) (Num swipe))
       (Num (int (length (shuffledModelIds s))))"
  by (simp add: switchModel_def setModel_def Let_def)

lemma switchModel_ca_calls:
  "ca_calls (switchModel swipe s) =
     ca_calls s @ [Paint 0 0 (- 1) (modelId (switchModel swipe s)), Disturb]"
  by (simp add: switchModel_def setModel_def Let_def)

lemma switchModel_shape:
  "switchModel swipe s =
     s\<lparr>curModelIndex := curModelIndex (switchModel swipe s),
       modelId := modelId (switchModel swipe s),
       ca_calls := ca_calls s @ [Paint 0 0 (- 1) (modelId (switchModel swipe s)), Disturb]\<rparr>"
  by (simp add: switchModel_def setModel_def Let_def)

lemma switchModel_step_index:
  assumes "curModelIndex s = Num i" "0 \<le> i" "i < int (length (shuffledModelIds s))"
      and "swipe = 1 \<or> swipe = - 1"
  shows "curModelIndex (switchModel swipe s) = Num ((i + swipe) mod int (length (shuffledModelIds s)))"
proof -
  let ?n = "int (length (shuffledModelIds s))"
  have n: "0 < ?n" using assms by linarith
  have nn: "0 \<le> i + ?n + swipe" using assms by auto
  have "trunc_rem (i + ?n + swipe) ?n = (i + ?n + swipe) mod ?n"
    using nn n by (rule trunc_rem_nonneg)
  moreover have "i + ?n + swipe = (i + swipe) + ?n"
    by simp
  moreover have "((i + swipe) + ?n) mod ?n = (i + swipe) mod ?n"
    by (rule mod_add_self2)
  ultimately have "trunc_rem (i + ?n + swipe) ?n = (i + swipe) mod ?n"
    by (simp only:)
  then show ?thesis
    using n assms(1) by (simp add: switchModel_curModelIndex)
qed

lemma switchModel_iterate:
  assumes "curModelIndex s = Num i" "0 \<le> i" "i < int (length (shuffledModelIds s))"
      and "swipe = 1 \<or> swipe = - 1"
  shows "curModelIndex ((switchModel swipe ^^ k) s) =
           Num ((i + swipe * int k) mod int (length (shuffledModelIds s)))
         \<and> shuffledModelIds ((switchModel swipe ^^ k) s) = shuffledModelIds s"
proof (induction k)
  case 0
  then show ?case using assms by simp
next
  case (Suc k)
  let ?n = "int (length (shuffledModelIds s))"
  let ?t = "(switchModel swipe ^^ k) s"
  have n: "0 < ?n" using assms by linarith
  have c: "curModelIndex ?t = Num ((i + swipe * int k) mod ?n)"
    and ids: "shuffledModelIds ?t = shuffledModelIds s"
    using Suc.IH by simp_all
  have "curModelIndex (switchModel swipe ?t) = Num (((i + swipe * int k) mod ?n + swipe) mod ?n)"
    using switchModel_step_index [of ?t "(i + swipe * int k) mod ?n" swipe] c ids n assms(4)
    by simp
  also have "((i + swipe * int k) mod ?n + swipe) mod ?n = (i + swipe * int k + swipe) mod ?n"
    by (rule mod_add_left_eq)
  also have "i + swipe * int k + swipe = i + swipe * int (Suc k)"
    by (simp add: algebra_simps)
  finally show ?case using ids by simp
qed

lemma switchModel_iterate_modelId:
  assumes "modelId s = js_index (shuffledModelIds s) (curModelIndex s)"
  shows "modelId ((switchModel swipe ^^ k) s) =
           js_index (shuffledModelIds ((switchModel swipe ^^ k) s))
             (curModelIndex ((switchModel swipe ^^ k) s))"
  using assms by (cases k) (simp_all add: switchModel_modelId)

text \<open>
  C1. From every index of the shuffled list, \<open>k\<close> calls of \<open>switchModel(1)\<close> followed
  by \<open>k\<close> calls of \<open>switchModel(-1)\<close>, or the reverse, bring \<open>curModelIndex\<close> back to
  its value, and with it the selected model id: the index moves modulo the length of
  the list.
\<close>

theorem switchModel_round_trip:
  assumes "curModelIndex s = Num i" "0 \<le> i" "i < int (length (shuffledModelIds s))"
      and "modelId s = js_index (shuffledModelIds s) (curModelIndex s)"
  shows "curModelIndex ((switchModel (- 1) ^^ k) ((switchModel 1 ^^ k) s)) = curModelIndex s
       \<and> modelId ((switchModel (- 1) ^^ k) ((switchModel 1 ^^ k) s)) = modelId s
       \<and> curModelIndex ((switchModel 1 ^^ k) ((switchModel (- 1) ^^ k) s)) = curModelIndex s
       \<and> modelId ((switchModel 1 ^^ k) ((switchModel (- 1) ^^ k) s)) = modelId s"
proof -
  let ?n = "int (length (shuffledModelIds s))"
  have n: "0 < ?n" using assms by linarith
  have round: "curModelIndex ((switchModel b ^^ k) ((switchModel a ^^ k) s)) = curModelIndex s
      \<and> modelId ((switchModel b ^^ k) ((switchModel a ^^ k) s)) = modelId s"
    if ab: "a = 1 \<and> b = - 1 \<or> a = - 1 \<and> b = 1" for a b :: int
  proof -
    let ?t = "(switchModel a ^^ k) s"
    let ?j = "(i + a * int k) mod ?n"
    have a: "a = 1 \<or> a = - 1" and b: "b = 1 \<or> b = - 1" and ba: "b = - a"
      using ab by auto
    have t: "curModelIndex ?t = Num ?j" and tids: "shuffledModelIds ?t = shuffledModelIds s"
      using switchModel_iterate [OF assms(1-3) a, of k] by simp_all
    have j: "0 \<le> ?j" "?j < int (length (shuffledModelIds ?t))"
      using n tids by simp_all
    have "curModelIndex ((switchModel b ^^ k) ?t) = Num ((?j + b * int k) mod ?n)"
      and fids: "shuffledModelIds ((switchModel b ^^ k) ?t) = shuffledModelIds s"
      using switchModel_iterate [OF t j b, of k] tids by simp_all
    moreover have "(?j + b * int k) mod ?n = i"
    proof -
      have "(?j + b * int k) mod ?n = (i + a * int k + b * int k) mod ?n"
        by (rule mod_add_left_eq)
      also have "i + a * int k + b * int k = i"
        by (simp add: ba)
      finally show ?thesis using assms(2,3) by simp
    qed
    ultimately have idx: "curModelIndex ((switchModel b ^^ k) ?t) = curModelIndex s"
      using assms(1) by simp
    have "modelId ?t = js_index (shuffledModelIds ?t) (curModelIndex ?t)"
      using assms(4) by (rule switchModel_iterate_modelId)
    then have "modelId ((switchModel b ^^ k) ?t) =
        js_index (shuffledModelIds ((switchModel b ^^ k) ?t)) (curModelIndex ((switchModel b ^^ k) ?t))"
      by (rule switchModel_iterate_modelId)
    then have "modelId ((switchModel b ^^ k) ?t) = modelId s"
      using idx fids assms(4) by simp
    with idx show ?thesis by simp
  qed
  from round [of 1 "- 1"] round [of "- 1" 1] show ?thesis by simp
qed

text \<open>
  From index 1 of \<open>[1, 2, 0]\<close>, two steps forward reach index 0 and two steps back
  return.
\<close>

theorem switchModel_round_trip_witness:
  "curModelIndex s_demo = Num 1 \<and> (0::int) \<le> 1 \<and> 1 < int (length (shuffledModelIds s_demo))
   \<and> modelId s_demo = js_index (shuffledModelIds s_demo) (curModelIndex s_demo)
   \<and> curModelIndex ((switchModel (- 1) ^^ 2) ((switchModel 1 ^^ 2) s_demo)) = Num 1
   \<and> modelId ((switchModel (- 1) ^^ 2) ((switchModel 1 ^^ 2) s_demo)) = Num 2
   \<and> curModelIndex ((switchModel 1 ^^ 2) s_demo) = Num 0"
proof -
  have h: "curModelIndex s_demo = Num 1" "(0::int) \<le> 1" "1 < int (length (shuffledModelIds s_demo))"
    "modelId s_demo = js_index (shuffledModelIds s_demo) (curModelIndex s_demo)"
    by (simp_all add: s_demo_def)
  have "curModelIndex ((switchModel 1 ^^ 2) s_demo) = Num 0"
    by (simp add: s_demo_def switchModel_curModelIndex numeral_2_eq_2 trunc_rem_def)
  with h switchModel_round_trip [OF h, of 2] show ?thesis by (simp add: s_demo_def)
qed

text \<open>
  C7. For every id, \<open>setModel(id)\<close> appends to the log exactly the whole-field call
  \<open>paint(0, 0, -1, id)\<close> and then \<open>disturb()\<close>; \<open>switchModel\<close> is \<open>setModel\<close> applied to
  the list element at the new index, so it logs the same two calls.
\<close>

theorem setModel_paint_then_disturb:
  "ca_calls (setModel id' s) = ca_calls s @ [Paint 0 0 (- 1) id', Disturb]
   \<and> modelId (setModel id' s) = id'
   \<and> switchModel swipe s =
       setModel (js_index (shuffledModelIds s) (curModelIndex (switchModel swipe s)))
         (s\<lparr>curModelIndex := curModelIndex (switchModel swipe s)\<rparr>)
   \<and> ca_calls (switchModel swipe s) =
       ca_calls s @ [Paint 0 0 (- 1) (modelId (switchModel swipe s)), Disturb]"
  by (simp add: switchModel_def setModel_def Let_def)

theorem setModel_paint_then_disturb_witness:
  "ca_calls (setModel (Num 2) s_demo) = [Paint 0 0 (- 1) (Num 2), Disturb]
   \<and> ca_calls (switchModel 1 s_demo) = [Paint 0 0 (- 1) (Num 0), Disturb]"
proof -
  have "modelId (switchModel 1 s_demo) = Num 0"
    by (simp add: switchModel_modelId switchModel_curModelIndex s_demo_def trunc_rem_def)
  then show ?thesis
    using setModel_paint_then_disturb [of "Num 2" s_demo 1] by (simp add: s_demo_def)
qed

section \<open>One frame\<close>

text \<open>
  The loop appends one \<open>step\<close> for each value of the counter below \<open>stepPerFrame\<close>,
  none when \<open>stepPerFrame\<close> is not above the start, and touches nothing else.
\<close>

lemma render_steps_eq:
  "render_steps i s = s\<lparr>ca_calls := ca_calls s @ replicate (nat (stepPerFrame s - i)) Step\<rparr>"
proof (induction i s rule: render_steps.induct)
  case (1 i s)
  show ?case
  proof (cases "i < stepPerFrame s")
    case True
    then have n: "nat (stepPerFrame s - i) = Suc (nat (stepPerFrame s - (i + 1)))"
      by linarith
    have "render_steps i s = render_steps (i + 1) (s\<lparr>ca_calls := ca_calls s @ [Step]\<rparr>)"
      using True by (subst render_steps.simps) simp
    also have "\<dots> = s\<lparr>ca_calls := (ca_calls s @ [Step]) @ replicate (nat (stepPerFrame s - (i + 1))) Step\<rparr>"
      using "1.IH" [OF True] by simp
    finally show ?thesis
      by (simp add: n)
  next
    case False
    then show ?thesis
      by (subst render_steps.simps) simp
  qed
qed

lemma render_ca_calls:
  "ca_calls (render dpr s) =
     ca_calls s @ replicate (nat (stepPerFrame s)) Step @ [Draw (getViewSize (render dpr s)) ''color'']"
  by (simp add: render_def render_steps_eq Let_def getViewSize_def)

lemma render_shape:
  "render dpr s =
     s\<lparr>canvas := canvas (render dpr s),
       ca_calls := ca_calls s @ replicate (nat (stepPerFrame s)) Step
                     @ [Draw (getViewSize (render dpr s)) ''color''],
       timeouts := Suc (timeouts s)\<rparr>"
  by (simp add: render_def render_steps_eq Let_def getViewSize_def)

text \<open>
  C3. One call of \<open>render\<close> appends \<open>stepPerFrame\<close> calls of \<open>step\<close> and then one call
  \<open>draw(viewSize, "color")\<close>, and nothing else: no \<open>draw\<close> lies between the steps.
  With \<open>stepPerFrame = 0\<close> the frame only draws.
\<close>

theorem render_steps_then_draw:
  "ca_calls (render dpr s) =
     ca_calls s @ replicate (nat (stepPerFrame s)) Step @ [Draw (getViewSize (render dpr s)) ''color'']
   \<and> (0 \<le> stepPerFrame s \<longrightarrow> int (length (filter (\<lambda>c. c = Step) (drop (length (ca_calls s)) (ca_calls (render dpr s))))) = stepPerFrame s)
   \<and> (stepPerFrame s = 0 \<longrightarrow>
        ca_calls (render dpr s) = ca_calls s @ [Draw (getViewSize (render dpr s)) ''color''])"
  by (simp add: render_ca_calls)

theorem render_steps_then_draw_witness:
  "0 \<le> stepPerFrame s_demo
   \<and> ca_calls (render 2 s_demo) = [Step, Step, Draw (100, 50) ''color'']
   \<and> stepPerFrame (s_demo\<lparr>stepPerFrame := 0\<rparr>) = 0
   \<and> ca_calls (render 2 (s_demo\<lparr>stepPerFrame := 0\<rparr>)) = [Draw (100, 50) ''color'']"
proof -
  have v: "getViewSize (render 2 s_demo) = (100, 50)"
    "getViewSize (render 2 (s_demo\<lparr>stepPerFrame := 0\<rparr>)) = (100, 50)"
    by (simp_all add: render_def render_steps_eq Let_def getViewSize_def js_or_def s_demo_def)
  have s: "stepPerFrame s_demo = 2" "ca_calls s_demo = []"
    by (simp_all add: s_demo_def)
  show ?thesis
    using render_steps_then_draw [of 2 s_demo]
      render_steps_then_draw [of 2 "s_demo\<lparr>stepPerFrame := 0\<rparr>"] v s
    by (simp add: numeral_2_eq_2)
qed

text \<open>
  C4 does not hold as stated. On a canvas laid out at 100 by 50 CSS pixels with a device
  pixel ratio of 2, the backing store becomes 200 by 100 while \<open>draw\<close> receives the view
  size \<open>(100, 50)\<close>: \<open>render\<close> reads \<open>getViewSize\<close> again after the resize, and the
  client size comes first.
\<close>

theorem render_draw_viewSize_counterexample:
  "last (ca_calls (render 2 s_demo)) = Draw (100, 50) ''color''
   \<and> (width (canvas (render 2 s_demo)), height (canvas (render 2 s_demo))) = (200, 100)
   \<and> last (ca_calls (render 2 s_demo)) \<noteq>
       Draw (Math_round (real_of_int (clientWidth (canvas s_demo)) * 2),
             Math_round (real_of_int (clientHeight (canvas s_demo)) * 2)) ''color''"
  by (simp add: render_def render_steps_eq Let_def getViewSize_def s_demo_def js_or_def Math_round_def)

text \<open>
  C4, amended. Before the draw call of a frame, \<open>render\<close> sets the backing store of
  the canvas to the view size times \<open>devicePixelRatio\<close> (1 when that is 0), rounded.
  The view size passed to \<open>draw\<close> is \<open>getViewSize\<close> read after that: in each dimension
  the client size when it is not 0, unscaled, and otherwise the backing-store size just
  set.
\<close>

theorem render_draw_viewSize:
  "width (canvas (render dpr s)) = Math_round (real_of_int (fst (getViewSize s)) * js_or dpr 1)
   \<and> height (canvas (render dpr s)) = Math_round (real_of_int (snd (getViewSize s)) * js_or dpr 1)
   \<and> last (ca_calls (render dpr s)) =
       Draw (js_or (clientWidth (canvas s)) (width (canvas (render dpr s))),
             js_or (clientHeight (canvas s)) (height (canvas (render dpr s)))) ''color''"
  by (simp add: render_def render_steps_eq Let_def getViewSize_def)

theorem render_draw_viewSize_witness:
  "width (canvas (render (3 / 2) (s_demo\<lparr>canvas := canvas_demo\<lparr>clientWidth := 0, clientHeight := 0\<rparr>\<rparr>))) = 450
   \<and> height (canvas (render (3 / 2) (s_demo\<lparr>canvas := canvas_demo\<lparr>clientWidth := 0, clientHeight := 0\<rparr>\<rparr>))) = 225
   \<and> last (ca_calls (render (3 / 2) (s_demo\<lparr>canvas := canvas_demo\<lparr>clientWidth := 0, clientHeight := 0\<rparr>\<rparr>)))
       = Draw (450, 225) ''color''"
  using render_draw_viewSize [of "3 / 2" "s_demo\<lparr>canvas := canvas_demo\<lparr>clientWidth := 0, clientHeight := 0\<rparr>\<rparr>"]
  by (simp add: getViewSize_def js_or_def Math_round_def canvas_demo_def)

section \<open>Gestures\<close>

lemma touch_gesture:
  "gesture (touch pos s) = map_option (drag pos) (gesture s)"
  by (simp add: touch_def Let_def split: option.splits)

lemma fold_touch_gesture:
  "gesture (fold touch ps s) = map_option (fold drag ps) (gesture s)"
proof (induction ps arbitrary: s)
  case Nil
  then show ?case by (simp add: option.map_ident)
next
  case (Cons p ps)
  then show ?case by (simp add: touch_gesture option.map_comp comp_def)
qed

lemma drag_mono:
  "l g \<le> l (drag p g) \<and> r g \<le> r (drag p g) \<and> u g \<le> u (drag p g) \<and> d g \<le> d (drag p g)"
  by (simp add: drag_def Let_def)

lemma fold_drag_mono:
  "l g \<le> l (fold drag ps g) \<and> r g \<le> r (fold drag ps g)
   \<and> u g \<le> u (fold drag ps g) \<and> d g \<le> d (fold drag ps g)"
proof (induction ps arbitrary: g)
  case Nil
  then show ?case by simp
next
  case (Cons p ps)
  have "l g \<le> l (drag p g)" "r g \<le> r (drag p g)" "u g \<le> u (drag p g)" "d g \<le> d (drag p g)"
    using drag_mono [of g p] by simp_all
  moreover have "l (drag p g) \<le> l (fold drag ps (drag p g))"
    "r (drag p g) \<le> r (fold drag ps (drag p g))"
    "u (drag p g) \<le> u (fold drag ps (drag p g))"
    "d (drag p g) \<le> d (fold drag ps (drag p g))"
    using Cons.IH [of "drag p g"] by simp_all
  ultimately show ?case by simp
qed

text \<open>
  C10. \<open>startGestue\<close> sets the four accumulators \<open>l\<close>, \<open>r\<close>, \<open>u\<close>, \<open>d\<close> to 0. While a
  gesture is open, each \<open>touch\<close> adds to each of them the positive part of the pointer
  displacement in its direction, so none of them decreases, over one call or over any
  sequence of calls.
\<close>

theorem gesture_accumulators_monotone:
  "gesture (startGestue now p0 s) = Some \<lparr> d = 0, l = 0, prevPos = p0, r = 0, time = now, u = 0 \<rparr>
   \<and> (gesture s = Some g \<longrightarrow>
        (\<exists>g'. gesture (touch p s) = Some g'
           \<and> l g' = l g + max (fst (prevPos g) - fst p) 0
           \<and> r g' = r g + max (fst p - fst (prevPos g)) 0
           \<and> u g' = u g + max (snd (prevPos g) - snd p) 0
           \<and> d g' = d g + max (snd p - snd (prevPos g)) 0
           \<and> prevPos g' = p
           \<and> l g \<le> l g' \<and> r g \<le> r g' \<and> u g \<le> u g' \<and> d g \<le> d g'))
   \<and> (gesture s = Some g \<longrightarrow>
        (\<exists>g'. gesture (fold touch ps s) = Some g'
           \<and> l g \<le> l g' \<and> r g \<le> r g' \<and> u g \<le> u g' \<and> d g \<le> d g'))"
proof (intro conjI impI)
  show "gesture (startGestue now p0 s) = Some \<lparr> d = 0, l = 0, prevPos = p0, r = 0, time = now, u = 0 \<rparr>"
    by (simp add: startGestue_def)
next
  assume "gesture s = Some g"
  then show "\<exists>g'. gesture (touch p s) = Some g'
           \<and> l g' = l g + max (fst (prevPos g) - fst p) 0
           \<and> r g' = r g + max (fst p - fst (prevPos g)) 0
           \<and> u g' = u g + max (snd (prevPos g) - snd p) 0
           \<and> d g' = d g + max (snd p - snd (prevPos g)) 0
           \<and> prevPos g' = p
           \<and> l g \<le> l g' \<and> r g \<le> r g' \<and> u g \<le> u g' \<and> d g \<le> d g'"
    by (simp add: touch_gesture drag_def Let_def)
next
  assume "gesture s = Some g"
  then show "\<exists>g'. gesture (fold touch ps s) = Some g'
           \<and> l g \<le> l g' \<and> r g \<le> r g' \<and> u g \<le> u g' \<and> d g \<le> d g'"
    using fold_drag_mono [of g ps] by (simp add: fold_touch_gesture)
qed

theorem gesture_accumulators_monotone_witness:
  "gesture (s_demo\<lparr>gesture := Some g_demo\<rparr>) = Some g_demo
   \<and> (\<exists>g'. gesture (touch (4, 13) (s_demo\<lparr>gesture := Some g_demo\<rparr>)) = Some g'
         \<and> l g' = 6 \<and> r g' = 0 \<and> u g' = 0 \<and> d g' = 3)
   \<and> (\<exists>g'. gesture (fold touch [(4, 13), (20, 1)] (s_demo\<lparr>gesture := Some g_demo\<rparr>)) = Some g'
         \<and> l g_demo \<le> l g' \<and> r g_demo \<le> r g' \<and> u g_demo \<le> u g' \<and> d g_demo \<le> d g')"
proof -
  have h: "gesture (s_demo\<lparr>gesture := Some g_demo\<rparr>) = Some g_demo"
    by simp
  show ?thesis
    using gesture_accumulators_monotone
      [of 0 "(0, 0)" "s_demo\<lparr>gesture := Some g_demo\<rparr>" g_demo "(4, 13)" "[(4, 13), (20, 1)]"] h
    by (auto simp add: g_demo_def)
qed

section \<open>Validation of the power preference\<close>

text \<open>
  C9 does not hold as stated. The empty string is present and is none of the three
  power options, but \<open>||\<close> replaces it by \<open>"default"\<close>: the constructor does not throw,
  asks for a context and creates the automaton.
\<close>

theorem constructor_powerPreference_counterexample:
  "powerPreference (opts_demo\<lparr>powerPreference := Some []\<rparr>) = Some []
   \<and> [] \<notin> set powerOptions
   \<and> fst (constructor browser_demo models_demo canvas_demo (opts_demo\<lparr>powerPreference := Some []\<rparr>))
       = [GetContext ''default'', NewCellularAutomata (160, 160)]
   \<and> isl (snd (constructor browser_demo models_demo canvas_demo
                 (opts_demo\<lparr>powerPreference := Some []\<rparr>))) = False"
  by (simp add: constructor_def powerOptions_def Let_def opts_demo_def browser_demo_def)

text \<open>
  C9, amended. For a \<open>powerPreference\<close> that is a non-empty string and none of the
  three power options the constructor throws before it creates a context or an
  automaton. For an absent or empty \<open>powerPreference\<close> it asks for a context with
  \<open>"default"\<close>, and when the browser provides one it returns an instance, the automaton
  created last.
\<close>

theorem constructor_powerPreference:
  "(powerPreference opts = Some p \<and> p \<noteq> [] \<and> p \<notin> set powerOptions \<longrightarrow>
      constructor br ms cv opts = ([], Inl (InvalidPowerPreference p)))
   \<and> (powerPreference opts = None \<or> powerPreference opts = Some [] \<longrightarrow>
        fst (constructor br ms cv opts) \<noteq> []
        \<and> hd (fst (constructor br ms cv opts)) = GetContext ''default''
        \<and> (getContext_ok br \<longrightarrow>
              (\<exists>s. snd (constructor br ms cv opts) = Inr s)
              \<and> last (fst (constructor br ms cv opts)) = NewCellularAutomata (160, 160)))"
  by (auto simp add: constructor_def powerOptions_def Let_def)

theorem constructor_powerPreference_witness:
  "powerPreference (opts_demo\<lparr>powerPreference := Some ''fast''\<rparr>) = Some ''fast''
   \<and> ''fast'' \<noteq> [] \<and> ''fast'' \<notin> set powerOptions
   \<and> constructor browser_demo models_demo canvas_demo (opts_demo\<lparr>powerPreference := Some ''fast''\<rparr>)
       = ([], Inl (InvalidPowerPreference ''fast''))
   \<and> powerPreference opts_demo = None
   \<and> getContext_ok browser_demo
   \<and> hd (fst (constructor browser_demo models_demo canvas_demo opts_demo)) = GetContext ''default''
   \<and> last (fst (constructor browser_demo models_demo canvas_demo opts_demo))
        = NewCellularAutomata (160, 160)"
proof -
  have a: "powerPreference (opts_demo\<lparr>powerPreference := Some ''fast''\<rparr>) = Some ''fast''
     \<and> ''fast'' \<noteq> [] \<and> ''fast'' \<notin> set powerOptions"
    by (simp add: powerOptions_def)
  have b: "powerPreference opts_demo = None \<or> powerPreference opts_demo = Some []"
    by (simp add: opts_demo_def)
  have c: "getContext_ok browser_demo"
    by (simp add: browser_demo_def)
  show ?thesis
    using a b c
      constructor_powerPreference [of "opts_demo\<lparr>powerPreference := Some ''fast''\<rparr>" "''fast''"
        browser_demo models_demo canvas_demo]
      constructor_powerPreference [of opts_demo p browser_demo models_demo canvas_demo]
    by (simp add: opts_demo_def)
qed

section \<open>What the event loop preserves\<close>

lemma paint_ids_append: "paint_ids (xs @ ys) = paint_ids xs @ paint_ids ys"
  by (induction xs rule: paint_ids.induct) simp_all

lemma paint_ids_Steps: "paint_ids (replicate n Step) = []"
  by (induction n) simp_all

lemma no_op_no_paint: "filter engine_op cs = [] \<Longrightarrow> paint_ids cs = []"
  by (induction cs rule: paint_ids.induct) (simp_all split: if_splits)

text \<open>
  The shuffled list is a permutation of the model indices.
\<close>

lemma shuffle_mset: "mset (shuffle rnd names) = mset (map int [0..<length names])"
proof -
  have "mset (shuffle rnd names) =
      image_mset (\<lambda>p. int (snd p)) (mset (map (\<lambda>i. (rnd i, i)) [0..<length names]))"
    by (simp add: shuffle_def)
  also have "\<dots> = mset (map int [0..<length names])"
    by (simp add: image_mset.compositionality comp_def)
  finally show ?thesis .
qed

lemma permutation_length:
  assumes "mset ids = mset (map int [0..<N])"
  shows "length ids = N"
  using mset_eq_length [OF assms] by simp

lemma permutation_index:
  assumes "mset ids = mset (map int [0..<N])" "valid_id N c"
  shows "valid_id N (js_index ids c)"
proof -
  obtain i where c: "c = Num i" and i: "0 \<le> i" "i < int N"
    using assms(2) by (cases c) simp_all
  have len: "length ids = N" using assms(1) by (rule permutation_length)
  have "ids ! nat i \<in> set ids"
    using i len by simp
  also have "set ids = set (map int [0..<N])"
    using assms(1) by (rule mset_eq_setD)
  finally have "0 \<le> ids ! nat i \<and> ids ! nat i < int N"
    by auto
  then show ?thesis using c i len by simp
qed

lemma funpow_preserves:
  assumes "\<And>t. P t \<Longrightarrow> P (h t)" "P s"
  shows "P ((h ^^ n) s)"
  using assms by (induction n) simp_all

lemma on_preserves:
  assumes "\<And>t. P t \<Longrightarrow> P (h t)" "P s"
  shows "P (on ty h s)"
  unfolding on_def using assms by (rule funpow_preserves)

lemma fold_preserves:
  assumes "\<And>p t. P t \<Longrightarrow> P (f p t)" "P s"
  shows "P (fold f ps s)"
  using assms by (induction ps arbitrary: s) simp_all

lemma on_idle: "listeners s = [] \<Longrightarrow> on ty h s = s"
  by (simp add: on_def)

lemma live_on:
  assumes "\<And>t. live ms t \<Longrightarrow> live ms (h t)" "live ms s"
  shows "live ms (on ty h s)"
  using assms by (rule on_preserves [where P = "live ms"])

lemma live_fold:
  assumes "\<And>p t. live ms t \<Longrightarrow> live ms (f p t)" "live ms s"
  shows "live ms (fold f ps s)"
  using assms by (rule fold_preserves [where P = "live ms"])

lemma live_switchModel:
  assumes "live ms s" "swipe = 1 \<or> swipe = - 1"
  shows "live ms (switchModel swipe s)"
proof -
  let ?N = "length (model_names ms)"
  have perm: "mset (shuffledModelIds s) = mset (map int [0..<?N])"
    and cur: "valid_id ?N (curModelIndex s)"
    and old: "list_all (valid_id ?N) (paint_ids (ca_calls s))"
    and ms: "models s = ms"
    using assms(1) by (simp_all add: live_def)
  obtain i where c: "curModelIndex s = Num i" and i: "0 \<le> i" "i < int ?N"
    using cur by (cases "curModelIndex s") simp_all
  have len: "length (shuffledModelIds s) = ?N"
    using perm by (rule permutation_length)
  have N: "0 < int ?N" using i by linarith
  have c': "curModelIndex (switchModel swipe s) = Num ((i + swipe) mod int ?N)"
    using switchModel_step_index [OF c i(1) _ assms(2)] i(2) len by simp
  then have v: "valid_id ?N (curModelIndex (switchModel swipe s))"
    using N by simp
  then have "valid_id ?N (modelId (switchModel swipe s))"
    using perm by (simp add: switchModel_modelId permutation_index)
  moreover have "modelId (switchModel swipe s) =
      js_index (shuffledModelIds s) (curModelIndex (switchModel swipe s))"
    by (rule switchModel_modelId)
  ultimately show ?thesis
    using v perm old ms
    by (subst switchModel_shape) (simp add: live_def paint_ids_append)
qed

lemma live_touch: "live ms s \<Longrightarrow> live ms (touch pos s)"
  by (simp add: live_def touch_def Let_def paint_ids_append split: option.splits)

lemma live_startGestue: "live ms s \<Longrightarrow> live ms (startGestue now pos s)"
  by (simp add: live_def startGestue_def)

lemma live_gesture_update: "live ms s \<Longrightarrow> live ms (s\<lparr>gesture := g\<rparr>)"
  by (simp add: live_def)

lemma live_endGestue: "live ms s \<Longrightarrow> live ms (endGestue now s)"
  by (simp add: endGestue_def Let_def live_gesture_update live_switchModel split: option.splits)

lemma live_render: "live ms s \<Longrightarrow> live ms (render dpr s)"
  by (subst render_shape) (simp add: live_def paint_ids_append paint_ids_Steps)

lemma live_requestAnimationFrame: "live ms s \<Longrightarrow> live ms (requestAnimationFrame s)"
  by (simp add: live_def requestAnimationFrame_def)

lemma live_destroy: "live ms s \<Longrightarrow> live ms (fst (destroy s))"
  by (simp add: live_def destroy_def cancelAnimationFrame_def Let_def paint_ids_append
      split: option.splits)

lemma setup_fields:
  "models (setup_hx rnd s) = models s"
  "shuffledModelIds (setup_hx rnd s) = shuffle rnd (model_names (models s))"
  "curModelIndex (setup_hx rnd s) = js_index (shuffle rnd (model_names (models s))) (Num 0)"
  "modelId (setup_hx rnd s) =
     js_index (shuffle rnd (model_names (models s)))
       (js_index (shuffle rnd (model_names (models s))) (Num 0))"
  "ca_calls (setup_hx rnd s) = ca_calls s @ [Paint 0 0 (- 1) (modelId (setup_hx rnd s))]"
  by (simp_all add: setup_hx_def requestAnimationFrame_def Let_def)

lemma live_setup:
  assumes "models s = ms" "model_names ms \<noteq> []"
    and "list_all (valid_id (length (model_names ms))) (paint_ids (ca_calls s))"
  shows "live ms (setup_hx rnd s)"
proof -
  let ?N = "length (model_names ms)"
  let ?ids = "shuffle rnd (model_names ms)"
  have perm: "mset ?ids = mset (map int [0..<?N])"
    by (rule shuffle_mset)
  have "valid_id ?N (Num 0)"
    using assms(2) by simp
  with perm have c: "valid_id ?N (js_index ?ids (Num 0))"
    by (rule permutation_index)
  with perm have m: "valid_id ?N (js_index ?ids (js_index ?ids (Num 0)))"
    by (rule permutation_index)
  show ?thesis
    using perm c m assms(1,3) by (simp add: live_def setup_fields paint_ids_append)
qed

text \<open>
  Once \<open>setup\<close> has run, every event keeps the selection within the list.
\<close>

lemma live_dispatch:
  assumes "live ms s" "model_names ms \<noteq> []"
  shows "live ms (dispatch ev s)"
proof (cases ev)
  case (Ready rnd)
  then show ?thesis
    using assms live_setup [of s ms rnd] by (simp add: live_def)
next
  case (MouseDown pos buttons now)
  then show ?thesis
    using assms(1) by (auto intro!: live_on live_touch live_startGestue)
next
  case (MouseMove pos buttons)
  then show ?thesis
    using assms(1) by (auto intro!: live_on live_touch)
next
  case (MouseUp now)
  then show ?thesis
    using assms(1) by (auto intro!: live_on live_endGestue)
next
  case (TouchStart touches now)
  then show ?thesis
    using assms(1)
    by (auto intro!: live_on live_fold live_touch live_startGestue live_gesture_update)
next
  case (TouchMove touches)
  then show ?thesis
    using assms(1) by (auto intro!: live_on live_fold live_touch)
next
  case (TouchEnd now)
  then show ?thesis
    using assms(1) by (auto intro!: live_on live_endGestue)
next
  case (KeyPress key)
  then show ?thesis
    using assms(1) by (auto simp add: Let_def intro!: live_on live_switchModel)
next
  case IntervalTick
  then show ?thesis
    using assms(1) by (simp add: live_switchModel)
next
  case TimeoutFire
  have "live ms (s\<lparr>timeouts := timeouts s - 1\<rparr>)"
    using assms(1) by (simp add: live_def)
  then show ?thesis
    using TimeoutFire assms(1) by (simp add: live_requestAnimationFrame)
next
  case (AnimationFrame dpr)
  have "live ms (s\<lparr>raf_queue := q\<rparr>)" for q
    using assms(1) by (simp add: live_def)
  then show ?thesis
    using AnimationFrame assms(1) by (simp add: live_render split: list.splits)
next
  case (Layout cw ch)
  then show ?thesis
    using assms(1) by (simp add: live_def)
next
  case CallDestroy
  then show ?thesis
    using assms(1) by (simp add: live_destroy)
qed

text \<open>
  Once \<open>setup\<close> has run, the current index lies within the shuffled list and the
  selected model id is the list element there.
\<close>

lemma live_index:
  assumes "live ms s"
  shows "\<exists>i. curModelIndex s = Num i \<and> 0 \<le> i \<and> i < int (length (shuffledModelIds s))
           \<and> modelId s = js_index (shuffledModelIds s) (curModelIndex s)"
proof -
  have "length (shuffledModelIds s) = length (model_names ms)"
    using assms by (intro permutation_length) (simp add: live_def)
  moreover obtain i where "curModelIndex s = Num i" "0 \<le> i" "i < int (length (model_names ms))"
    using assms by (cases "curModelIndex s") (simp_all add: live_def)
  ultimately show ?thesis
    using assms by (simp add: live_def)
qed

text \<open>
  Before \<open>setup\<close> has run, no event but the ready callback reaches a handler.
\<close>

lemma quiet_dispatch:
  assumes "quiet ms s" "\<not> is_Ready ev"
  shows "quiet ms (dispatch ev s)"
proof -
  have l: "listeners s = []" and i: "intervals s = 0" and t: "timeouts s = 0"
    and q: "raf_queue s = []"
    using assms(1) by (simp_all add: quiet_def idle_def)
  show ?thesis
  proof (cases ev)
    case (Layout cw ch)
    then show ?thesis using assms(1) by (simp add: quiet_def idle_def)
  next
    case CallDestroy
    then show ?thesis
      using assms(1)
      by (simp add: quiet_def idle_def destroy_def cancelAnimationFrame_def Let_def
          split: option.splits)
  qed (use assms l i t q in \<open>simp_all add: on_idle\<close>)
qed

lemma quiet_run:
  assumes "quiet ms s" "\<not> list_ex is_Ready evs"
  shows "quiet ms (run evs s)"
  using assms unfolding run_def
  by (induction evs arbitrary: s) (simp_all add: quiet_dispatch)

lemma quiet_or_live_dispatch:
  assumes "quiet ms s \<or> live ms s" "model_names ms \<noteq> []"
  shows "quiet ms (dispatch ev s) \<or> live ms (dispatch ev s)"
proof (cases "live ms s")
  case True
  then show ?thesis using assms(2) by (simp add: live_dispatch)
next
  case False
  then have qs: "quiet ms s" using assms(1) by simp
  show ?thesis
  proof (cases "is_Ready ev")
    case True
    then obtain rnd where ev: "ev = Ready rnd" by (cases ev) simp_all
    have "paint_ids (ca_calls s) = []"
      using qs by (simp add: quiet_def no_op_no_paint)
    then have "live ms (setup_hx rnd s)"
      using qs assms(2) by (intro live_setup) (simp_all add: quiet_def)
    then show ?thesis using ev by simp
  next
    case False
    then show ?thesis using qs by (simp add: quiet_dispatch)
  qed
qed

lemma quiet_or_live_run:
  assumes "quiet ms s \<or> live ms s" "model_names ms \<noteq> []"
  shows "quiet ms (run evs s) \<or> live ms (run evs s)"
  using assms unfolding run_def
proof (induction evs arbitrary: s)
  case Nil
  then show ?case by simp
next
  case (Cons ev evs)
  have "quiet ms (dispatch ev s) \<or> live ms (dispatch ev s)"
    using Cons.prems by (rule quiet_or_live_dispatch)
  then show ?case
    using Cons.IH [of "dispatch ev s"] Cons.prems(2) by simp
qed

lemma live_run:
  assumes "live ms s" "model_names ms \<noteq> []"
  shows "live ms (run evs s)"
  using assms unfolding run_def
  by (induction evs arbitrary: s) (simp_all add: live_dispatch)

text \<open>
  Every history that starts with the ready callback ends in such a state.
\<close>

lemma live_after_ready:
  assumes "quiet ms s" "model_names ms \<noteq> []"
  shows "live ms (run (Ready rnd # evs) s)"
proof -
  have "paint_ids (ca_calls s) = []"
    using assms(1) by (simp add: quiet_def no_op_no_paint)
  then have "live ms (setup_hx rnd s)"
    using assms by (intro live_setup) (simp_all add: quiet_def)
  then have "live ms (run evs (setup_hx rnd s))"
    using assms(2) by (rule live_run)
  then show ?thesis
    by (simp add: run_def)
qed

lemma constructor_quiet:
  assumes "constructor br ms cv opts = (effs, Inr s0)"
  shows "quiet ms s0"
  using assms
  by (auto simp add: constructor_def Let_def quiet_def idle_def split: if_splits)

lemma constructor_demo:
  "constructor browser_demo models_demo canvas_demo opts_demo =
     ([GetContext ''default'', NewCellularAutomata (160, 160)], Inr s0_demo)"
  by (simp add: constructor_def s0_demo_def opts_demo_def browser_demo_def powerOptions_def Let_def)

lemma demo_values: "paint_ids (ca_calls (run evs_demo s0_demo)) = [Num 2, Num 0, Num 1]"
  by code_simp

lemma demo_trace: "ca_calls (run evs_demo s0_demo) =
  [Paint 0 0 (- 1) (Num 2), Paint 0 0 (- 1) (Num 0), Disturb, Step, Draw (100, 50) ''color'',
   Step, Draw (100, 50) ''color'', Paint 0 0 (- 1) (Num 1), Disturb, Destroy]"
  by code_simp

text \<open>
  C2. With \<open>N \<ge> 1\<close> loaded models, after any history of events every model id that
  the host has passed to \<open>paint\<close> is a number in \<open>[0, N)\<close>. The shuffled list is a
  permutation of \<open>0, \<dots>, N - 1\<close>, and \<open>setup\<close> paints with the list element at the index
  given by the first list element.
\<close>

theorem paint_ids_in_range:
  assumes "constructor br ms cv opts = (effs, Inr s0)" and "model_names ms \<noteq> []"
  shows "list_all (valid_id (length (model_names ms))) (paint_ids (ca_calls (run evs s0)))
     \<and> mset (shuffle rnd (model_names ms)) = mset (map int [0..<length (model_names ms)])
     \<and> paint_ids (ca_calls (setup_hx rnd s0)) =
         [js_index (shuffle rnd (model_names ms)) (js_index (shuffle rnd (model_names ms)) (Num 0))]"
proof -
  have q: "quiet ms s0" using assms(1) by (rule constructor_quiet)
  then have "quiet ms (run evs s0) \<or> live ms (run evs s0)"
    using assms(2) by (intro quiet_or_live_run) simp
  then have "list_all (valid_id (length (model_names ms))) (paint_ids (ca_calls (run evs s0)))"
    by (auto simp add: quiet_def live_def no_op_no_paint)
  moreover have "paint_ids (ca_calls (setup_hx rnd s0)) =
         [js_index (shuffle rnd (model_names ms)) (js_index (shuffle rnd (model_names ms)) (Num 0))]"
    using q by (simp add: setup_fields paint_ids_append quiet_def no_op_no_paint)
  ultimately show ?thesis
    by (simp add: shuffle_mset)
qed

theorem paint_ids_in_range_witness:
  "constructor browser_demo models_demo canvas_demo opts_demo =
     ([GetContext ''default'', NewCellularAutomata (160, 160)], Inr s0_demo)
   \<and> model_names models_demo \<noteq> []
   \<and> list_all (valid_id 3) (paint_ids (ca_calls (run evs_demo s0_demo)))
   \<and> paint_ids (ca_calls (run evs_demo s0_demo)) = [Num 2, Num 0, Num 1]"
proof -
  have m: "model_names models_demo \<noteq> []"
    by (simp add: models_demo_def)
  have "length (model_names models_demo) = 3"
    by (simp add: models_demo_def)
  then show ?thesis
    using paint_ids_in_range [OF constructor_demo m, of evs_demo rnd_demo] constructor_demo m
      demo_values
    by simp
qed

text \<open>
  C6. After any history of events in which the ready callback has not fired, the host
  has invoked no engine operation: the handlers that invoke one are registered by
  \<open>setup\<close>, which only the ready callback runs.
\<close>

theorem no_engine_op_before_ready:
  assumes "constructor br ms cv opts = (effs, Inr s0)" and "\<not> list_ex is_Ready evs"
  shows "filter engine_op (ca_calls (run evs s0)) = []"
proof -
  have "quiet ms s0" using assms(1) by (rule constructor_quiet)
  then have "quiet ms (run evs s0)" using assms(2) by (rule quiet_run)
  then show ?thesis by (simp add: quiet_def)
qed

theorem no_engine_op_before_ready_witness:
  "constructor browser_demo models_demo canvas_demo opts_demo =
     ([GetContext ''default'', NewCellularAutomata (160, 160)], Inr s0_demo)
   \<and> \<not> list_ex is_Ready evs_unready
   \<and> filter engine_op (ca_calls (run evs_unready s0_demo)) = []"
proof -
  have n: "\<not> list_ex is_Ready evs_unready"
    by (simp add: evs_unready_def)
  show ?thesis
    using no_engine_op_before_ready [OF constructor_demo n] constructor_demo n by simp
qed

section \<open>The engine under the calls of the host\<close>

lemma grows_refl: "grows s s"
  by (simp add: grows_def)

lemma grows_on:
  assumes "\<And>t. grows s t \<Longrightarrow> grows s (h t)" "grows s s'"
  shows "grows s (on ty h s')"
  using assms by (rule on_preserves [where P = "grows s"])

lemma grows_fold:
  assumes "\<And>p t. grows s t \<Longrightarrow> grows s (f p t)" "grows s s'"
  shows "grows s (fold f ps s')"
  using assms by (rule fold_preserves [where P = "grows s"])

lemma grows_switchModel: "grows s t \<Longrightarrow> grows s (switchModel swipe t)"
  by (auto simp add: grows_def switchModel_ca_calls)

lemma grows_touch: "grows s t \<Longrightarrow> grows s (touch pos t)"
  by (auto simp add: grows_def touch_def Let_def split: option.splits)

lemma grows_startGestue: "grows s t \<Longrightarrow> grows s (startGestue now pos t)"
  by (simp add: grows_def startGestue_def)

lemma grows_gesture_update: "grows s t \<Longrightarrow> grows s (t\<lparr>gesture := g\<rparr>)"
  by (simp add: grows_def)

lemma grows_endGestue: "grows s t \<Longrightarrow> grows s (endGestue now t)"
  by (simp add: endGestue_def Let_def grows_gesture_update grows_switchModel split: option.splits)

lemma grows_render: "grows s t \<Longrightarrow> grows s (render dpr t)"
  by (auto simp add: grows_def render_ca_calls)

lemma grows_requestAnimationFrame: "grows s t \<Longrightarrow> grows s (requestAnimationFrame t)"
  by (simp add: grows_def requestAnimationFrame_def)

lemma destroy_ca_calls: "ca_calls (fst (destroy s)) = ca_calls s @ [Destroy]"
  by (simp add: destroy_def cancelAnimationFrame_def Let_def split: option.splits)

lemma grows_destroy: "grows s t \<Longrightarrow> grows s (fst (destroy t))"
  by (auto simp add: grows_def destroy_ca_calls)

lemma grows_setup: "grows s t \<Longrightarrow> grows s (setup_hx rnd t)"
  by (auto simp add: grows_def setup_fields)

lemma grows_dispatch:
  assumes "grows s t"
  shows "grows s (dispatch ev t)"
proof (cases ev)
  case (Ready rnd)
  then show ?thesis using assms by (simp add: grows_setup)
next
  case (MouseDown pos buttons now)
  then show ?thesis
    using assms by (auto intro!: grows_on grows_touch grows_startGestue)
next
  case (MouseMove pos buttons)
  then show ?thesis
    using assms by (auto intro!: grows_on grows_touch)
next
  case (MouseUp now)
  then show ?thesis
    using assms by (auto intro!: grows_on grows_endGestue)
next
  case (TouchStart touches now)
  then show ?thesis
    using assms
    by (auto intro!: grows_on grows_fold grows_touch grows_startGestue grows_gesture_update)
next
  case (TouchMove touches)
  then show ?thesis
    using assms by (auto intro!: grows_on grows_fold grows_touch)
next
  case (TouchEnd now)
  then show ?thesis
    using assms by (auto intro!: grows_on grows_endGestue)
next
  case (KeyPress key)
  then show ?thesis
    using assms by (auto simp add: Let_def intro!: grows_on grows_switchModel)
next
  case IntervalTick
  then show ?thesis
    using assms by (simp add: grows_switchModel)
next
  case TimeoutFire
  have "grows s (t\<lparr>timeouts := timeouts t - 1\<rparr>)"
    using assms by (simp add: grows_def)
  then show ?thesis
    using TimeoutFire assms by (simp add: grows_requestAnimationFrame)
next
  case (AnimationFrame dpr)
  have "grows s (t\<lparr>raf_queue := q\<rparr>)" for q
    using assms by (simp add: grows_def)
  then show ?thesis
    using AnimationFrame assms by (simp add: grows_render split: list.splits)
next
  case (Layout cw ch)
  then show ?thesis
    using assms by (simp add: grows_def)
next
  case CallDestroy
  then show ?thesis
    using assms by (simp add: grows_destroy)
qed

lemma grows_run: "grows s t \<Longrightarrow> grows s (run evs t)"
  unfolding run_def
  by (induction evs arbitrary: t) (simp_all add: grows_dispatch)

lemma ca_follow_destroyed: "destroyed e \<Longrightarrow> ca_follow c e = e"
  by (simp add: ca_follow_def ca_apply_def)

lemma ca_after_destroyed: "destroyed e \<Longrightarrow> ca_after cs e = e"
  unfolding ca_after_def
  by (induction cs) (simp_all add: ca_follow_destroyed)

lemma ca_after_append: "ca_after (xs @ ys) e = ca_after ys (ca_after xs e)"
  by (simp add: ca_after_def)

lemma ca_follow_Destroy:
  "destroyed (ca_follow Destroy e)"
  by (simp add: ca_follow_def ca_apply_def)

lemma ca_follow_released:
  "(destroyed e \<longrightarrow> owned e = []) \<Longrightarrow>
     (destroyed (ca_follow c e) \<longrightarrow> owned (ca_follow c e) = [])"
  by (cases c) (simp_all add: ca_follow_def ca_apply_def)

lemma ca_after_released:
  "(destroyed e \<longrightarrow> owned e = []) \<Longrightarrow>
     (destroyed (ca_after cs e) \<longrightarrow> owned (ca_after cs e) = [])"
  unfolding ca_after_def
proof (induction cs arbitrary: e)
  case Nil
  then show ?case by simp
next
  case (Cons c cs)
  have "destroyed (ca_follow c e) \<longrightarrow> owned (ca_follow c e) = []"
    using Cons.prems by (rule ca_follow_released)
  then show ?case
    using Cons.IH [of "ca_follow c e"] by simp
qed

lemma ca_follow_gridDimensions: "gridDimensions (ca_follow c e) = gridDimensions e"
  by (cases c) (simp_all add: ca_follow_def ca_apply_def)

lemma ca_after_gridDimensions: "gridDimensions (ca_after cs e) = gridDimensions e"
  unfolding ca_after_def
  by (induction cs arbitrary: e) (simp_all add: ca_follow_gridDimensions)

text \<open>
  C5. \<open>destroy\<close> of the host calls \<open>destroy\<close> of the engine. From then on, whatever
  events follow, every call of an engine operation fails with \<open>EngineDestroyedError\<close>,
  and the engine owns no resource.
\<close>

theorem engine_destroyed_after_destroy:
  "ca_apply c (ca_after (ca_calls (run evs (fst (destroy s)))) (ca_new dims ms))
     = Inl EngineDestroyedError
   \<and> owned (ca_after (ca_calls (run evs (fst (destroy s)))) (ca_new dims ms)) = []
   \<and> ca_calls (fst (destroy s)) = ca_calls s @ [Destroy]"
proof -
  let ?init = "ca_new dims ms"
  have "grows (fst (destroy s)) (run evs (fst (destroy s)))"
    using grows_refl by (rule grows_run)
  then obtain ys where ys: "ca_calls (run evs (fst (destroy s))) = (ca_calls s @ [Destroy]) @ ys"
    by (auto simp add: grows_def destroy_ca_calls)
  let ?mid = "ca_after (ca_calls s @ [Destroy]) ?init"
  let ?fin = "ca_after (ca_calls (run evs (fst (destroy s)))) ?init"
  have "?mid = ca_follow Destroy (ca_after (ca_calls s) ?init)"
    by (simp add: ca_after_def)
  then have d1: "destroyed ?mid"
    by (simp add: ca_follow_Destroy)
  have "?fin = ca_after ys ?mid"
    by (simp only: ys ca_after_append)
  then have e: "?fin = ?mid"
    using d1 by (simp add: ca_after_destroyed)
  have d: "destroyed ?fin"
    using d1 e by simp
  have "destroyed ?init \<longrightarrow> owned ?init = []"
    by (simp add: ca_new_def)
  then have "destroyed ?fin \<longrightarrow> owned ?fin = []"
    by (rule ca_after_released)
  then have "owned ?fin = []"
    using d by simp
  moreover have "ca_apply c ?fin = Inl EngineDestroyedError"
    using d by (simp add: ca_apply_def)
  ultimately show ?thesis
    by (simp add: destroy_ca_calls)
qed

theorem engine_destroyed_after_destroy_witness:
  "ca_apply Step (ca_after (ca_calls (run [IntervalTick] (fst (destroy s_demo))))
      (ca_new (160, 160) models_demo)) = Inl EngineDestroyedError
   \<and> owned (ca_after (ca_calls (run [IntervalTick] (fst (destroy s_demo))))
      (ca_new (160, 160) models_demo)) = []
   \<and> ca_calls (fst (destroy s_demo)) = [Destroy]"
  using engine_destroyed_after_destroy [of Step "[IntervalTick]" s_demo "(160, 160)" models_demo]
  by (simp add: s_demo_def)

text \<open>
  C8. The constructor creates the automaton once, with the grid \<open>[160, 160]\<close>. After
  any history of events the grid of the engine is still \<open>(160, 160)\<close>: no call of the
  host, in particular no \<open>draw\<close> or \<open>clearCircle\<close> with its view size, changes it.
\<close>

theorem grid_dimensions_fixed:
  assumes "constructor br ms cv opts = (effs, Inr s0)"
  shows "(NewCellularAutomata dims \<in> set effs \<longleftrightarrow> dims = (160, 160))
     \<and> length (filter (\<lambda>e. e = NewCellularAutomata (160, 160)) effs) = 1
     \<and> gridDimensions (ca_new (160, 160) ms) = (160, 160)
     \<and> gridDimensions (ca_after (ca_calls (run evs s0)) (ca_new (160, 160) ms)) = (160, 160)
     \<and> gridDimensions (ca_follow c e) = gridDimensions e"
proof -
  have "effs = [GetContext ''default'', NewCellularAutomata (160, 160)]
      \<or> (\<exists>pp. effs = [GetContext pp, NewGUI, NewCellularAutomata (160, 160)])
      \<or> (\<exists>pp. effs = [GetContext pp, NewCellularAutomata (160, 160)])"
    using assms by (auto simp add: constructor_def Let_def split: if_splits)
  then have "(NewCellularAutomata dims \<in> set effs \<longleftrightarrow> dims = (160, 160))
     \<and> length (filter (\<lambda>e. e = NewCellularAutomata (160, 160)) effs) = 1"
    by auto
  then show ?thesis
    by (simp add: ca_after_gridDimensions ca_follow_gridDimensions ca_new_def)
qed

theorem grid_dimensions_fixed_witness:
  "constructor browser_demo models_demo canvas_demo opts_demo =
     ([GetContext ''default'', NewCellularAutomata (160, 160)], Inr s0_demo)
   \<and> gridDimensions (ca_after (ca_calls (run evs_demo s0_demo)) (ca_new (160, 160) models_demo))
       = (160, 160)
   \<and> gridDimensions (ca_follow (Draw (100, 50) ''color'') (ca_new (160, 160) models_demo))
       = (160, 160)"
  using grid_dimensions_fixed [OF constructor_demo, of "(160, 160)" evs_demo
      "Draw (100, 50) ''color''" "ca_new (160, 160) models_demo"] constructor_demo
  by (simp add: ca_new_def)

end
